theory Spec2Isabelle
  imports Complex_Main "HOL-Library.Word"
begin

section \<open>backend/server.py: status checks and the brightness endpoint\<close>

text \<open>
  The server keeps two pieces of process-wide state: the \<open>status_checks\<close> collection of
  the document store and the module logger. Both are threaded explicitly through the
  handlers below. The arithmetic of the brightness handler is embedded twice: over the
  reals, every step the exact operation, and at double precision, every step followed
  by the rounding of an IEEE double, for the properties that rounding decides.
  Exceptions are values: a step that can raise returns a sum whose
  left injection is the exception raised.
\<close>

subsection \<open>Exceptions\<close>

text \<open>
  An instance of Python's \<open>Exception\<close>: its class name and the text \<open>str(e)\<close> gives.
  Only \<open>Exception\<close> instances are represented; interpreter signals deriving directly
  from \<open>BaseException\<close> are not failures of a handler and have no value here.
\<close>

datatype py_exception = PyException (exc_class: string) (exc_str: string)

definition ZeroDivisionError :: py_exception where
  "ZeroDivisionError = PyException ''ZeroDivisionError'' ''division by zero''"

definition and_then :: "py_exception + 'a \<Rightarrow> ('a \<Rightarrow> py_exception + 'b) \<Rightarrow> py_exception + 'b" where
  "and_then r f = (case r of Inl e \<Rightarrow> Inl e | Inr v \<Rightarrow> f v)"

subsection \<open>Server state\<close>

record StatusCheck =
  id' :: string
  client_name :: string
  timestamp :: int

text \<open>
  A line handed to the logger. \<open>LogInfo a e\<close> is the message
  \<open>Analyzed image: avg_luminance=a, calculated_ev=e\<close> with both numbers printed to two
  decimals; \<open>LogError m\<close> is the message \<open>m\<close> at error level.
\<close>

datatype log_record = LogInfo real real | LogError string

record server =
  status_checks :: "StatusCheck list"
  logger :: "log_record list"

subsection \<open>Status checks (lines 46--56)\<close>

text \<open>
  \<open>create_status_check\<close>: the identifier and the timestamp come from \<open>uuid4\<close> and
  \<open>utcnow\<close>, passed in here; \<open>insert_one\<close> appends the document to the collection.
\<close>

definition create_status_check :: "string \<Rightarrow> string \<Rightarrow> int \<Rightarrow> server \<Rightarrow> StatusCheck \<times> server" where
  "create_status_check input_client_name new_id now s =
     (let status_obj = \<lparr>id' = new_id, client_name = input_client_name, timestamp = now\<rparr>
      in (status_obj, s\<lparr>status_checks := status_checks s @ [status_obj]\<rparr>))"

text \<open>
  \<open>get_status_checks\<close>: \<open>find().to_list(1000)\<close> reads the cursor from its start and stops
  after 1000 documents; each document is then rebuilt as a \<open>StatusCheck\<close>.
\<close>

definition to_list :: "'a list \<Rightarrow> nat \<Rightarrow> 'a list" where
  "to_list cursor n = take n cursor"

definition get_status_checks :: "server \<Rightarrow> StatusCheck list" where
  "get_status_checks s =
     map (\<lambda>status_check. \<lparr>id' = id' status_check, client_name = client_name status_check,
                            timestamp = timestamp status_check\<rparr>)
       (to_list (status_checks s) 1000)"

subsection \<open>Luminance (lines 78--85)\<close>

text \<open>A pixel of an RGB image: three 8-bit channels.\<close>

type_synonym pixel = "8 word \<times> 8 word \<times> 8 word"

definition luminance :: "pixel \<Rightarrow> real" where
  "luminance p =
     (case p of (r, g, b) \<Rightarrow>
        0.299 * real (unat r) + 0.587 * real (unat g) + 0.114 * real (unat b))"

text \<open>The \<open>for\<close> loop of lines 81--83, with the running \<open>total_luminance\<close> as accumulator.\<close>

fun total_luminance_loop :: "real \<Rightarrow> pixel list \<Rightarrow> real" where
  "total_luminance_loop acc [] = acc"
| "total_luminance_loop acc (p # pixels) = total_luminance_loop (acc + luminance p) pixels"

definition total_luminance :: "pixel list \<Rightarrow> real" where
  "total_luminance pixels = total_luminance_loop 0 pixels"

text \<open>Line 85: the division raises \<open>ZeroDivisionError\<close> when there is no pixel.\<close>

definition avg_luminance :: "pixel list \<Rightarrow> py_exception + real" where
  "avg_luminance pixels =
     (if length pixels = 0 then Inl ZeroDivisionError
      else Inr (total_luminance pixels / real (length pixels)))"

subsection \<open>Exposure value (lines 98--107)\<close>

text \<open>The five branch bodies, named after the comments of lines 92--96.\<close>

definition ev_very_dark :: "real \<Rightarrow> real" where
  "ev_very_dark L = 2 + (L / 30) * 4"

definition ev_dark :: "real \<Rightarrow> real" where
  "ev_dark L = 6 + ((L - 30) / 30) * 3"

definition ev_medium :: "real \<Rightarrow> real" where
  "ev_medium L = 9 + ((L - 60) / 60) * 3"

definition ev_bright :: "real \<Rightarrow> real" where
  "ev_bright L = 12 + ((L - 120) / 60) * 2"

definition ev_very_bright :: "real \<Rightarrow> real" where
  "ev_very_bright L = 14 + ((L - 180) / 75) * 3"

definition ev :: "real \<Rightarrow> real" where
  "ev L =
     (if L < 30 then ev_very_dark L
      else if L < 60 then ev_dark L
      else if L < 120 then ev_medium L
      else if L < 180 then ev_bright L
      else ev_very_bright L)"

subsection \<open>Rounding (lines 112--113)\<close>

text \<open>
  Python's \<open>round(x, ndigits)\<close>: the nearest multiple of \<open>10 ^ -ndigits\<close>, a tie going to
  the even one.
\<close>

definition round_half_even :: "real \<Rightarrow> int" where
  "round_half_even x =
     (let f = \<lfloor>x\<rfloor>; d = x - of_int f
      in if d < 1 / 2 then f
         else if 1 / 2 < d then f + 1
         else if even f then f else f + 1)"

definition py_round :: "real \<Rightarrow> nat \<Rightarrow> real" where
  "py_round x ndigits = of_int (round_half_even (x * 10 ^ ndigits)) / 10 ^ ndigits"

subsection \<open>Double precision (lines 82--107 as the interpreter computes them)\<close>

text \<open>
  A Python float is an IEEE double. \<open>round_double\<close> is the rounding every float
  operation ends with: to the nearest number with a 53-bit significand, a tie going to
  the even significand. \<open>binary_exponent x\<close> is the \<open>e\<close> with \<open>2^e \<le> |x| < 2^(e+1)\<close> and
  \<open>ulp e\<close> the spacing \<open>2^(e-52)\<close> of the doubles there. The exponent is not bounded:
  the values of the handler, between 0 and 40000 * 255, are far from overflow, and the
  positive ones are far from the subnormal range.
\<close>

fun bit_length :: "nat \<Rightarrow> nat" where
  "bit_length n = (if n = 0 then 0 else Suc (bit_length (n div 2)))"

declare bit_length.simps [simp del]

definition binary_exponent :: "real \<Rightarrow> int" where
  "binary_exponent x =
     (let a = \<bar>x\<bar>
      in if 1 \<le> a then int (bit_length (nat \<lfloor>a\<rfloor>)) - 1
         else - int (bit_length (nat (\<lceil>1 / a\<rceil> - 1))))"

definition ulp :: "int \<Rightarrow> real" where
  "ulp e = (if 52 \<le> e then 2 ^ nat (e - 52) else 1 / 2 ^ nat (52 - e))"

definition round_double :: "real \<Rightarrow> real" where
  "round_double x =
     (if x = 0 then 0
      else let u = ulp (binary_exponent x) in of_int (round_half_even (x / u)) * u)"

text \<open>
  Lines 82--85 and 98--107 again, each operation followed by its rounding; a literal
  such as \<open>0.299\<close> is the double nearest to it, and the integers (channels, the pixel
  count, the constants of the curve) are doubles already.
\<close>

definition luminance_double :: "pixel \<Rightarrow> real" where
  "luminance_double p =
     (case p of (r, g, b) \<Rightarrow>
        round_double
          (round_double
             (round_double (round_double 0.299 * real (unat r)) +
              round_double (round_double 0.587 * real (unat g))) +
           round_double (round_double 0.114 * real (unat b))))"

fun total_luminance_double_loop :: "real \<Rightarrow> pixel list \<Rightarrow> real" where
  "total_luminance_double_loop acc [] = acc"
| "total_luminance_double_loop acc (p # pixels) =
     total_luminance_double_loop (round_double (acc + luminance_double p)) pixels"

definition avg_luminance_double :: "pixel list \<Rightarrow> py_exception + real" where
  "avg_luminance_double pixels =
     (if length pixels = 0 then Inl ZeroDivisionError
      else Inr (round_double (total_luminance_double_loop 0 pixels / real (length pixels))))"

definition ev_very_dark_double :: "real \<Rightarrow> real" where
  "ev_very_dark_double L = round_double (2 + round_double (round_double (L / 30) * 4))"

definition ev_dark_double :: "real \<Rightarrow> real" where
  "ev_dark_double L = round_double (6 + round_double (round_double (round_double (L - 30) / 30) * 3))"

definition ev_medium_double :: "real \<Rightarrow> real" where
  "ev_medium_double L = round_double (9 + round_double (round_double (round_double (L - 60) / 60) * 3))"

definition ev_bright_double :: "real \<Rightarrow> real" where
  "ev_bright_double L = round_double (12 + round_double (round_double (round_double (L - 120) / 60) * 2))"

definition ev_very_bright_double :: "real \<Rightarrow> real" where
  "ev_very_bright_double L = round_double (14 + round_double (round_double (round_double (L - 180) / 75) * 3))"

definition ev_double :: "real \<Rightarrow> real" where
  "ev_double L =
     (if L < 30 then ev_very_dark_double L
      else if L < 60 then ev_dark_double L
      else if L < 120 then ev_medium_double L
      else if L < 180 then ev_bright_double L
      else ev_very_bright_double L)"

subsection \<open>The imaging library\<close>

text \<open>
  The handler reaches the imaging library through six operations. They are parameters of
  the handler here: \<open>Image_open\<close> decodes the uploaded bytes, \<open>im_mode\<close> and \<open>im_size\<close>
  read an image's colour mode and its (width, height), \<open>convert\<close> changes the mode,
  \<open>resize\<close> resamples to a given size and \<open>getdata\<close> lists the pixels in scan order.
  Each of them may raise.
\<close>

type_synonym bytes = "8 word list"

record 'img PIL =
  Image_open :: "bytes \<Rightarrow> py_exception + 'img"
  im_mode :: "'img \<Rightarrow> string"
  im_size :: "'img \<Rightarrow> nat \<times> nat"
  convert :: "'img \<Rightarrow> string \<Rightarrow> py_exception + 'img"
  resize :: "'img \<Rightarrow> nat \<times> nat \<Rightarrow> py_exception + 'img"
  getdata :: "'img \<Rightarrow> py_exception + pixel list"

text \<open>
  Modelled from the spec: \<open>Image.thumbnail\<close> belongs to the imaging library and is not
  under src/. Section 4.1, step 3: "Downsample so neither dimension exceeds 200 pixels,
  preserving aspect ratio"; section 6 requires a capability \<open>resize(grid, maxDim)\<close>
  preserving aspect ratio. The size is computed the way the library documents it: an
  image that already fits the box is left as it is; otherwise one side takes the bound
  and the other is the bound scaled by the aspect ratio, rounded down or up to whichever
  keeps the ratio closer, and at least 1. The image is resampled only when the computed
  size differs from its own.
\<close>

definition round_aspect :: "real \<Rightarrow> (int \<Rightarrow> real) \<Rightarrow> nat" where
  "round_aspect number key =
     nat (max (if key \<lfloor>number\<rfloor> \<le> key \<lceil>number\<rceil> then \<lfloor>number\<rfloor> else \<lceil>number\<rceil>) 1)"

definition preserve_aspect_ratio :: "nat \<times> nat \<Rightarrow> nat \<times> nat \<Rightarrow> py_exception + (nat \<times> nat) option" where
  "preserve_aspect_ratio provided_size size_of_image =
     (case provided_size of (x, y) \<Rightarrow>
      case size_of_image of (width, height) \<Rightarrow>
        if width \<le> x \<and> height \<le> y then Inr None
        else if height = 0 \<or> y = 0 then Inl ZeroDivisionError
        else
          let aspect = real width / real height
          in if aspect \<le> real x / real y
             then Inr (Some (round_aspect (real y * aspect)
                               (\<lambda>n. \<bar>aspect - of_int n / real y\<bar>), y))
             else Inr (Some (x, round_aspect (real x / aspect)
                               (\<lambda>n. if n = 0 then 0 else \<bar>aspect - real x / of_int n\<bar>))))"

definition thumbnail :: "'img PIL \<Rightarrow> 'img \<Rightarrow> nat \<times> nat \<Rightarrow> py_exception + 'img" where
  "thumbnail pil img provided_size =
     and_then (preserve_aspect_ratio provided_size (im_size pil img)) (\<lambda>final_size.
       case final_size of
         None \<Rightarrow> Inr img
       | Some sz \<Rightarrow> if im_size pil img \<noteq> sz then resize pil img sz else Inr img)"

subsection \<open>The handler (lines 58--119)\<close>

text \<open>
  What the handler returns: the dictionary of lines 111--115, or the pair of line 119,
  an error dictionary and a status code.
\<close>

datatype response =
  BrightnessResult (result_avg_luminance: real) (result_ev: real) (pixel_count: nat)
| ErrorResponse (error: string) (status_code: nat)

text \<open>Lines 65--76: from the uploaded bytes to the pixel list.\<close>

definition read_pixels :: "'img PIL \<Rightarrow> bytes \<Rightarrow> py_exception + pixel list" where
  "read_pixels pil contents =
     and_then (Image_open pil contents) (\<lambda>img.
     and_then (if im_mode pil img \<noteq> ''RGB'' then convert pil img ''RGB'' else Inr img) (\<lambda>img.
     and_then (thumbnail pil img (200, 200)) (\<lambda>img.
     getdata pil img)))"

text \<open>Lines 78--115: from the pixel list to the result, logging it on the way.\<close>

definition measure_pixels :: "pixel list \<Rightarrow> server \<Rightarrow> py_exception + response \<times> server" where
  "measure_pixels pixels s =
     and_then (avg_luminance pixels) (\<lambda>avg.
       let e = ev avg
       in Inr (BrightnessResult (py_round avg 2) (py_round e 2) (length pixels),
               s\<lparr>logger := logger s @ [LogInfo (py_round avg 2) (py_round e 2)]\<rparr>))"

definition try_block :: "'img PIL \<Rightarrow> bytes \<Rightarrow> server \<Rightarrow> py_exception + response \<times> server" where
  "try_block pil contents s =
     and_then (read_pixels pil contents) (\<lambda>pixels. measure_pixels pixels s)"

text \<open>
  \<open>try: body except Exception as e: handler\<close>. A left injection in the result is an
  exception that leaves the statement.
\<close>

definition try_except :: "py_exception + 'a \<Rightarrow> (py_exception \<Rightarrow> py_exception + 'a) \<Rightarrow> py_exception + 'a" where
  "try_except body handler = (case body of Inr v \<Rightarrow> Inr v | Inl e \<Rightarrow> handler e)"

definition analyze_brightness :: "'img PIL \<Rightarrow> bytes \<Rightarrow> server \<Rightarrow> py_exception + response \<times> server" where
  "analyze_brightness pil contents s =
     try_except (try_block pil contents s) (\<lambda>e.
       Inr (ErrorResponse (exc_str e) 500,
            s\<lparr>logger := logger s @ [LogError (''Error analyzing brightness: '' @ exc_str e)]\<rparr>))"

subsection \<open>A stand-in for the imaging library\<close>

text \<open>
  To run the handler on concrete inputs: every non-empty upload decodes to an RGB image
  of the given size whose pixels all have the given colour, the empty upload is not an
  image, and resampling keeps the colour.
\<close>

definition solid_PIL :: "nat \<Rightarrow> nat \<Rightarrow> pixel \<Rightarrow> (nat \<times> nat) PIL" where
  "solid_PIL w h c =
     \<lparr>Image_open = (\<lambda>contents.
         if contents = [] then Inl (PyException ''UnidentifiedImageError'' ''cannot identify image file'')
         else Inr (w, h)),
      im_mode = (\<lambda>img. ''RGB''),
      im_size = (\<lambda>img. img),
      convert = (\<lambda>img m. Inr img),
      resize = (\<lambda>img sz. Inr sz),
      getdata = (\<lambda>img. Inr (replicate (fst img * snd img) c))\<rparr>"

text \<open>
  What the handler relies on from the library: a resampled image has the size asked
  for, and \<open>getdata\<close> lists width times height pixels.
\<close>

definition PIL_sizes :: "'img PIL \<Rightarrow> bool" where
  "PIL_sizes pil \<longleftrightarrow>
     (\<forall>img sz img'. resize pil img sz = Inr img' \<longrightarrow> im_size pil img' = sz) \<and>
     (\<forall>img pixels. getdata pil img = Inr pixels \<longrightarrow>
        length pixels = fst (im_size pil img) * snd (im_size pil img))"

section \<open>Properties\<close>

subsection \<open>The exposure value curve\<close>

text \<open>
  C1. For every average luminance L in [0, 255] the handler's exposure value is the one
  the five-segment table gives, each segment closed below and open above, the last one
  closed at 255: 2 + (L/30)*4 on [0,30), 6 + ((L-30)/30)*3 on [30,60),
  9 + ((L-60)/60)*3 on [60,120), 12 + ((L-120)/60)*2 on [120,180) and
  14 + ((L-180)/75)*3 on [180,255].
\<close>

theorem ev_piecewise:
  "(0 \<le> L \<and> L < 30 \<longrightarrow> ev L = 2 + (L / 30) * 4) \<and>
   (30 \<le> L \<and> L < 60 \<longrightarrow> ev L = 6 + ((L - 30) / 30) * 3) \<and>
   (60 \<le> L \<and> L < 120 \<longrightarrow> ev L = 9 + ((L - 60) / 60) * 3) \<and>
   (120 \<le> L \<and> L < 180 \<longrightarrow> ev L = 12 + ((L - 120) / 60) * 2) \<and>
   (180 \<le> L \<and> L \<le> 255 \<longrightarrow> ev L = 14 + ((L - 180) / 75) * 3)"
  by (simp add: ev_def ev_very_dark_def ev_dark_def ev_medium_def ev_bright_def ev_very_bright_def)

theorem ev_piecewise_witness:
  "ev 15 = 4 \<and> ev 30 = 6 \<and> ev 90 = 21 / 2 \<and> ev 150 = 13 \<and> ev 255 = 17"
  using ev_piecewise [of 15] ev_piecewise [of 30] ev_piecewise [of 90]
    ev_piecewise [of 150] ev_piecewise [of 255]
  by simp

lemma ev_mono: "L1 \<le> L2 \<Longrightarrow> ev L1 \<le> ev L2"
  unfolding ev_def ev_very_dark_def ev_dark_def ev_medium_def ev_bright_def ev_very_bright_def
  by (auto simp: field_simps)

text \<open>
  C5. The exposure value never decreases with the luminance: for L1 < L2, both in
  [0, 255], the value at L1 is at most the value at L2.
\<close>

theorem ev_monotone:
  "0 \<le> L1 \<Longrightarrow> L1 < L2 \<Longrightarrow> L2 \<le> 255 \<Longrightarrow> ev L1 \<le> ev L2"
  by (rule ev_mono) simp

theorem ev_monotone_witness: "ev 29 \<le> ev 200 \<and> ev 29 = 88 / 15 \<and> ev 200 = 74 / 5"
proof -
  have "ev 29 \<le> ev 200"
    using ev_monotone [of 29 200] by simp
  moreover have "ev 29 = 88 / 15" "ev 200 = 74 / 5"
    by (simp_all add: ev_def ev_very_dark_def ev_very_bright_def)
  ultimately show ?thesis by simp
qed

text \<open>
  In exact arithmetic the adjacent branch formulas agree at every breakpoint, and the
  value strictly increases within each segment.
\<close>

lemma ev_exact_continuous_increasing:
  "ev_very_dark 30 = 6 \<and> ev_dark 30 = 6 \<and> ev 30 = 6 \<and>
   ev_dark 60 = 9 \<and> ev_medium 60 = 9 \<and> ev 60 = 9 \<and>
   ev_medium 120 = 12 \<and> ev_bright 120 = 12 \<and> ev 120 = 12 \<and>
   ev_bright 180 = 14 \<and> ev_very_bright 180 = 14 \<and> ev 180 = 14 \<and>
   (0 \<le> L1 \<and> L1 < L2 \<and> L2 < 30 \<longrightarrow> ev L1 < ev L2) \<and>
   (30 \<le> L1 \<and> L1 < L2 \<and> L2 < 60 \<longrightarrow> ev L1 < ev L2) \<and>
   (60 \<le> L1 \<and> L1 < L2 \<and> L2 < 120 \<longrightarrow> ev L1 < ev L2) \<and>
   (120 \<le> L1 \<and> L1 < L2 \<and> L2 < 180 \<longrightarrow> ev L1 < ev L2) \<and>
   (180 \<le> L1 \<and> L1 < L2 \<and> L2 \<le> 255 \<longrightarrow> ev L1 < ev L2)"
  unfolding ev_def ev_very_dark_def ev_dark_def ev_medium_def ev_bright_def ev_very_bright_def
  by (auto simp: field_simps)

subsection \<open>The exposure value curve at double precision\<close>

lemma round_half_even_bounds: "of_int (round_half_even x) \<le> x + 1 / 2 \<and> x - 1 / 2 \<le> of_int (round_half_even x)"
  unfolding round_half_even_def Let_def by (auto; linarith)

lemma round_half_even_mono: "x \<le> y \<Longrightarrow> round_half_even x \<le> round_half_even y"
proof -
  assume xy: "x \<le> y"
  have fl: "\<lfloor>x\<rfloor> \<le> \<lfloor>y\<rfloor>" using xy by (rule floor_mono)
  show ?thesis
  proof (cases "\<lfloor>x\<rfloor> = \<lfloor>y\<rfloor>")
    case True
    then have "x - of_int \<lfloor>x\<rfloor> \<le> y - of_int \<lfloor>y\<rfloor>" using xy by simp
    then show ?thesis
      using True unfolding round_half_even_def Let_def by auto
  next
    case False
    then have "\<lfloor>x\<rfloor> + 1 \<le> \<lfloor>y\<rfloor>" using fl by simp
    moreover have "round_half_even x \<le> \<lfloor>x\<rfloor> + 1"
      unfolding round_half_even_def Let_def by auto
    moreover have "\<lfloor>y\<rfloor> \<le> round_half_even y"
      unfolding round_half_even_def Let_def by auto
    ultimately show ?thesis by linarith
  qed
qed

lemma round_half_even_of_int: "round_half_even (of_int n) = n"
  by (simp add: round_half_even_def)

lemma bit_length_bounds: "0 < n \<Longrightarrow> 2 ^ (bit_length n - 1) \<le> n \<and> n < 2 ^ bit_length n"
proof (induction n rule: bit_length.induct)
  case (1 n)
  show ?case
  proof (cases "n div 2 = 0")
    case True
    then have "n = 1" using "1.prems" by auto
    then show ?thesis by (simp add: bit_length.simps)
  next
    case False
    then have ih: "2 ^ (bit_length (n div 2) - 1) \<le> n div 2 \<and> n div 2 < 2 ^ bit_length (n div 2)"
      using "1.IH" "1.prems" by simp
    have pos: "0 < bit_length (n div 2)"
      using False by (simp add: bit_length.simps)
    have bl: "bit_length n = Suc (bit_length (n div 2))"
      using "1.prems" by (subst bit_length.simps) simp
    have p2: "(2::nat) ^ bit_length (n div 2) = 2 * 2 ^ (bit_length (n div 2) - 1)"
      using pos by (cases "bit_length (n div 2)") simp_all
    have lo: "(2::nat) ^ bit_length (n div 2) \<le> n"
      using ih p2 by linarith
    have hi: "n < 2 * 2 ^ bit_length (n div 2)"
      using ih by linarith
    show ?thesis using lo hi bl by simp
  qed
qed

lemma ulp_powi: "ulp e = 2 powi (e - 52)"
  by (auto simp: ulp_def power_int_def inverse_eq_divide power_divide)


lemma binary_exponent_bounds:
  assumes "0 < x"
  shows "2 powi binary_exponent x \<le> x \<and> x < 2 powi (binary_exponent x + 1)"
proof (cases "1 \<le> x")
  case True
  define n where "n = nat \<lfloor>x\<rfloor>"
  define k where "k = bit_length n"
  have n1: "0 < n" using True by (simp add: n_def)
  have b: "2 ^ (k - 1) \<le> n \<and> n < 2 ^ k"
    unfolding k_def by (rule bit_length_bounds [OF n1])
  have k1: "0 < k" using b n1 by (cases k) auto
  have e: "binary_exponent x = int (k - 1)"
    using True assms k1 by (simp add: binary_exponent_def n_def k_def)
  have nx: "real n \<le> x" "x < real n + 1"
    using True by (simp_all add: n_def)
  have "(2::real) ^ (k - 1) \<le> real n"
    using b by (metis of_nat_le_iff of_nat_numeral of_nat_power)
  then have lo: "2 ^ (k - 1) \<le> x" using nx by linarith
  have "Suc n \<le> 2 ^ k" using b by simp
  then have "real (Suc n) \<le> (2::real) ^ k"
    by (metis of_nat_le_iff of_nat_numeral of_nat_power)
  then have "real n + 1 \<le> (2::real) ^ k" by simp
  then have hi: "x < 2 ^ k" using nx by linarith
  have p1: "(2::real) powi binary_exponent x = 2 ^ (k - 1)"
    unfolding e by (simp only: power_int_of_nat)
  have "binary_exponent x + 1 = int k" using e k1 by simp
  then have p2: "(2::real) powi (binary_exponent x + 1) = 2 ^ k"
    by (simp only: power_int_of_nat)
  show ?thesis using lo hi by (simp only: p1 p2)
next
  case False
  define m where "m = \<lceil>1 / x\<rceil>"
  define n where "n = nat (m - 1)"
  define k where "k = bit_length n"
  have inv: "1 < 1 / x" using False assms by simp
  have m2: "2 \<le> m" using inv unfolding m_def by linarith
  have n1: "0 < n" using m2 by (simp add: n_def)
  have b: "2 ^ (k - 1) \<le> n \<and> n < 2 ^ k"
    unfolding k_def by (rule bit_length_bounds [OF n1])
  have k1: "0 < k" using b n1 by (cases k) auto
  have e: "binary_exponent x = - int k"
    using False assms by (simp add: binary_exponent_def n_def k_def m_def)
  have mx: "1 / x \<le> real_of_int m" "real_of_int m - 1 < 1 / x"
    unfolding m_def by linarith+
  have nm: "real n = real_of_int m - 1" using m2 by (simp add: n_def)
  have "Suc n \<le> 2 ^ k" using b by simp
  then have "real (Suc n) \<le> (2::real) ^ k"
    by (metis of_nat_le_iff of_nat_numeral of_nat_power)
  then have "real n + 1 \<le> (2::real) ^ k" by simp
  then have "1 / x \<le> 2 ^ k" using mx nm by linarith
  then have lo: "1 / 2 ^ k \<le> x"
    using assms by (simp add: field_simps)
  have "(2::real) ^ (k - 1) \<le> real n"
    using b by (metis of_nat_le_iff of_nat_numeral of_nat_power)
  then have "2 ^ (k - 1) < 1 / x" using mx nm by linarith
  then have hi: "x < 1 / 2 ^ (k - 1)"
    using assms by (simp add: field_simps)
  have p: "(2::real) powi (- int j) = 1 / 2 ^ j" for j :: nat
    by (simp add: power_int_minus inverse_eq_divide)
  have "binary_exponent x + 1 = - int (k - 1)" using e k1 by simp
  then have p2: "(2::real) powi (binary_exponent x + 1) = 1 / 2 ^ (k - 1)"
    by (simp only: p)
  have p1: "(2::real) powi binary_exponent x = 1 / 2 ^ k"
    unfolding e by (rule p)
  show ?thesis using lo hi by (simp only: p1 p2)
qed

lemma ulp_pos: "0 < ulp e"
  by (simp add: ulp_powi)

lemma ulp_bounds:
  assumes "0 < x"
  shows "2 ^ 52 * ulp (binary_exponent x) \<le> x \<and> x < 2 ^ 53 * ulp (binary_exponent x)"
proof -
  have a: "(2::real) ^ 52 * 2 powi (e - 52) = 2 powi e" for e :: int
    using power_int_add [of "2::real" 52 "e - 52"] by simp
  have b: "(2::real) ^ 53 * 2 powi (e - 52) = 2 powi (e + 1)" for e :: int
    using power_int_add [of "2::real" 53 "e - 52"] by (simp add: add.commute)
  show ?thesis
    using binary_exponent_bounds [OF assms] by (simp only: ulp_powi a b)
qed

lemma ulp_step: "e < e' \<Longrightarrow> 2 * ulp e \<le> ulp e'"
proof -
  assume "e < e'"
  then have "e - 52 + 1 \<le> e' - 52" by simp
  then have "(2::real) powi (e - 52 + 1) \<le> 2 powi (e' - 52)"
    by (intro power_int_increasing) simp_all
  moreover have "(2::real) powi (e - 52 + 1) = 2 * 2 powi (e - 52)"
    using power_int_add [of "2::real" "e - 52" 1] by simp
  ultimately show ?thesis by (simp add: ulp_powi)
qed

lemma round_double_bounds:
  assumes "0 < x"
  shows "2 ^ 52 * ulp (binary_exponent x) \<le> round_double x \<and>
         round_double x \<le> 2 ^ 53 * ulp (binary_exponent x)"
proof -
  let ?u = "ulp (binary_exponent x)"
  have u: "0 < ?u" by (rule ulp_pos)
  have b: "2 ^ 52 \<le> x / ?u" "x / ?u \<le> 2 ^ 53"
    using ulp_bounds [OF assms] u by (simp_all add: pos_le_divide_eq pos_divide_le_eq)
  have "round_half_even (of_int (2 ^ 52)) \<le> round_half_even (x / ?u)"
    using b(1) by (intro round_half_even_mono) simp
  then have lo: "2 ^ 52 \<le> round_half_even (x / ?u)"
    by (simp only: round_half_even_of_int)
  have "round_half_even (x / ?u) \<le> round_half_even (of_int (2 ^ 53))"
    using b(2) by (intro round_half_even_mono) simp
  then have hi: "round_half_even (x / ?u) \<le> 2 ^ 53"
    by (simp only: round_half_even_of_int)
  have lo': "(2::real) ^ 52 \<le> of_int (round_half_even (x / ?u))"
    using lo by (metis of_int_le_iff of_int_numeral of_int_power)
  have hi': "of_int (round_half_even (x / ?u)) \<le> (2::real) ^ 53"
    using hi by (metis of_int_le_iff of_int_numeral of_int_power)
  have rd: "round_double x = of_int (round_half_even (x / ?u)) * ?u"
    using assms by (simp add: round_double_def Let_def)
  show ?thesis
    unfolding rd using lo' hi' u by (simp add: mult_le_cancel_right)
qed

lemma round_double_mono_pos:
  assumes "0 < x" "x \<le> y"
  shows "round_double x \<le> round_double y"
proof -
  have y: "0 < y" using assms by simp
  let ?ex = "binary_exponent x" and ?ey = "binary_exponent y"
  have le: "?ex \<le> ?ey"
  proof (rule ccontr)
    assume "\<not> ?ex \<le> ?ey"
    then have "2 * ulp ?ey \<le> ulp ?ex" by (intro ulp_step) simp
    then have "2 ^ 53 * ulp ?ey \<le> 2 ^ 52 * ulp ?ex" by simp
    then show False
      using ulp_bounds [OF assms(1)] ulp_bounds [OF y] assms(2) by linarith
  qed
  show ?thesis
  proof (cases "?ex = ?ey")
    case True
    have u: "0 < ulp ?ey" by (rule ulp_pos)
    have "x / ulp ?ey \<le> y / ulp ?ey"
      using assms(2) u by (simp add: divide_right_mono)
    then have "round_half_even (x / ulp ?ey) \<le> round_half_even (y / ulp ?ey)"
      by (rule round_half_even_mono)
    then have "of_int (round_half_even (x / ulp ?ey)) * ulp ?ey \<le>
        of_int (round_half_even (y / ulp ?ey)) * ulp ?ey"
      using u by (simp add: mult_le_cancel_right)
    then show ?thesis
      using True assms(1) y by (simp add: round_double_def Let_def)
  next
    case False
    then have "2 * ulp ?ex \<le> ulp ?ey" using le by (intro ulp_step) simp
    then have "2 ^ 53 * ulp ?ex \<le> 2 ^ 52 * ulp ?ey" by simp
    then show ?thesis
      using round_double_bounds [OF assms(1)] round_double_bounds [OF y] by linarith
  qed
qed

lemma round_double_mono: "0 \<le> x \<Longrightarrow> x \<le> y \<Longrightarrow> round_double x \<le> round_double y"
proof -
  assume h: "0 \<le> x" "x \<le> y"
  show ?thesis
  proof (cases "x = 0")
    case True
    show ?thesis
    proof (cases "y = 0")
      case True
      then show ?thesis using \<open>x = 0\<close> by simp
    next
      case False
      then have "0 < y" using h True by simp
      then have "0 \<le> round_double y"
        using round_double_bounds [of y] ulp_pos [of "binary_exponent y"]
        by (smt (verit) mult_nonneg_nonneg zero_le_power)
      then show ?thesis using True by (simp add: round_double_def)
    qed
  next
    case False
    then show ?thesis using h by (intro round_double_mono_pos) simp_all
  qed
qed

lemma round_double_nonneg: "0 \<le> x \<Longrightarrow> 0 \<le> round_double x"
  using round_double_mono [of 0 x] by (simp add: round_double_def)

lemma scaled_double_mono:
  assumes "0 \<le> t1" "t1 \<le> t2" "0 < d" "0 \<le> m" "0 \<le> c"
  shows "round_double (c + round_double (round_double (t1 / d) * m)) \<le>
         round_double (c + round_double (round_double (t2 / d) * m))"
proof -
  have q: "0 \<le> t1 / d" "t1 / d \<le> t2 / d"
    using assms by (simp_all add: divide_right_mono)
  have r: "0 \<le> round_double (t1 / d)" "round_double (t1 / d) \<le> round_double (t2 / d)"
    using q by (simp_all add: round_double_nonneg round_double_mono)
  have p: "0 \<le> round_double (t1 / d) * m" "round_double (t1 / d) * m \<le> round_double (t2 / d) * m"
    using r assms(4) by (simp_all add: mult_right_mono)
  have s: "0 \<le> round_double (round_double (t1 / d) * m)"
      "round_double (round_double (t1 / d) * m) \<le> round_double (round_double (t2 / d) * m)"
    using p by (simp_all add: round_double_nonneg round_double_mono)
  show ?thesis
    using s assms(5) by (intro round_double_mono) simp_all
qed

lemma offset_double_mono:
  "b \<le> L1 \<Longrightarrow> L1 \<le> L2 \<Longrightarrow>
   0 \<le> round_double (L1 - b) \<and> round_double (L1 - b) \<le> round_double (L2 - b)"
  by (simp add: round_double_nonneg round_double_mono)

lemma ev_double_segments_mono:
  "(0 \<le> L1 \<and> L1 \<le> L2 \<and> L2 < 30 \<longrightarrow> ev_double L1 \<le> ev_double L2) \<and>
   (30 \<le> L1 \<and> L1 \<le> L2 \<and> L2 < 60 \<longrightarrow> ev_double L1 \<le> ev_double L2) \<and>
   (60 \<le> L1 \<and> L1 \<le> L2 \<and> L2 < 120 \<longrightarrow> ev_double L1 \<le> ev_double L2) \<and>
   (120 \<le> L1 \<and> L1 \<le> L2 \<and> L2 < 180 \<longrightarrow> ev_double L1 \<le> ev_double L2) \<and>
   (180 \<le> L1 \<and> L1 \<le> L2 \<and> L2 \<le> 255 \<longrightarrow> ev_double L1 \<le> ev_double L2)"
proof -
  have a: "0 \<le> L1 \<Longrightarrow> L1 \<le> L2 \<Longrightarrow> ev_very_dark_double L1 \<le> ev_very_dark_double L2"
    unfolding ev_very_dark_double_def by (intro scaled_double_mono) simp_all
  have b: "30 \<le> L1 \<Longrightarrow> L1 \<le> L2 \<Longrightarrow> ev_dark_double L1 \<le> ev_dark_double L2"
    unfolding ev_dark_double_def using offset_double_mono [of 30 L1 L2]
    by (intro scaled_double_mono) simp_all
  have c: "60 \<le> L1 \<Longrightarrow> L1 \<le> L2 \<Longrightarrow> ev_medium_double L1 \<le> ev_medium_double L2"
    unfolding ev_medium_double_def using offset_double_mono [of 60 L1 L2]
    by (intro scaled_double_mono) simp_all
  have d: "120 \<le> L1 \<Longrightarrow> L1 \<le> L2 \<Longrightarrow> ev_bright_double L1 \<le> ev_bright_double L2"
    unfolding ev_bright_double_def using offset_double_mono [of 120 L1 L2]
    by (intro scaled_double_mono) simp_all
  have e: "180 \<le> L1 \<Longrightarrow> L1 \<le> L2 \<Longrightarrow> ev_very_bright_double L1 \<le> ev_very_bright_double L2"
    unfolding ev_very_bright_double_def using offset_double_mono [of 180 L1 L2]
    by (intro scaled_double_mono) simp_all
  show ?thesis
    using a b c d e by (simp add: ev_double_def)
qed

lemma bp30: "ev_very_dark_double 30 = 6" "ev_dark_double 30 = 6"
  by code_simp+

lemma bp60: "ev_dark_double 60 = 9" "ev_medium_double 60 = 9"
  by code_simp+

lemma bp120: "ev_medium_double 120 = 12" "ev_bright_double 120 = 12"
  by code_simp+

lemma bp180: "ev_bright_double 180 = 14" "ev_very_bright_double 180 = 14"
  by code_simp+

lemma avg_luminance_double_10_11_0:
  "avg_luminance_double [(10, 11, 0)] = Inr (2659094104985567 / 281474976710656)"
  by code_simp

lemma avg_luminance_double_3_0_75:
  "avg_luminance_double [(3, 0, 75)] = Inr (5318188209971135 / 562949953421312)"
  by code_simp

lemma ev_double_below:
  "ev_double (2659094104985567 / 281474976710656) = 3669983336344217 / 1125899906842624"
  by code_simp

lemma ev_double_above:
  "ev_double (5318188209971135 / 562949953421312) = 3669983336344217 / 1125899906842624"
  by code_simp

text \<open>
  C6 as stated fails on the strictness: the one-pixel images (10, 11, 0) and
  (3, 0, 75) have the average luminances 9.447 and 9.447000000000001 as doubles, both
  in [0, 30) and the first smaller than the second, and the handler computes the same
  exposure value 3.2596 for both.
\<close>

theorem ev_strict_counterexample:
  "avg_luminance_double [(10, 11, 0)] = Inr (2659094104985567 / 281474976710656) \<and>
   avg_luminance_double [(3, 0, 75)] = Inr (5318188209971135 / 562949953421312) \<and>
   (0::real) \<le> 2659094104985567 / 281474976710656 \<and>
   (2659094104985567 / 281474976710656 :: real) < 5318188209971135 / 562949953421312 \<and>
   (5318188209971135 / 562949953421312 :: real) < 30 \<and>
   ev_double (2659094104985567 / 281474976710656) =
     ev_double (5318188209971135 / 562949953421312)"
  by (simp add: avg_luminance_double_10_11_0 avg_luminance_double_3_0_75
      ev_double_below ev_double_above)

text \<open>
  C6, amended. As the handler computes it, the curve is continuous at every
  breakpoint: at 30 the two adjacent branch formulas both give exactly 6, at 60 both
  give 9, at 120 both give 12 and at 180 both give 14, which is also the handler's
  value there; and within each segment the value never decreases.
\<close>

theorem ev_double_continuous_nondecreasing:
  "ev_very_dark_double 30 = 6 \<and> ev_dark_double 30 = 6 \<and> ev_double 30 = 6 \<and>
   ev_dark_double 60 = 9 \<and> ev_medium_double 60 = 9 \<and> ev_double 60 = 9 \<and>
   ev_medium_double 120 = 12 \<and> ev_bright_double 120 = 12 \<and> ev_double 120 = 12 \<and>
   ev_bright_double 180 = 14 \<and> ev_very_bright_double 180 = 14 \<and> ev_double 180 = 14 \<and>
   (0 \<le> L1 \<and> L1 \<le> L2 \<and> L2 < 30 \<longrightarrow> ev_double L1 \<le> ev_double L2) \<and>
   (30 \<le> L1 \<and> L1 \<le> L2 \<and> L2 < 60 \<longrightarrow> ev_double L1 \<le> ev_double L2) \<and>
   (60 \<le> L1 \<and> L1 \<le> L2 \<and> L2 < 120 \<longrightarrow> ev_double L1 \<le> ev_double L2) \<and>
   (120 \<le> L1 \<and> L1 \<le> L2 \<and> L2 < 180 \<longrightarrow> ev_double L1 \<le> ev_double L2) \<and>
   (180 \<le> L1 \<and> L1 \<le> L2 \<and> L2 \<le> 255 \<longrightarrow> ev_double L1 \<le> ev_double L2)"
proof -
  have "ev_double 30 = 6" "ev_double 60 = 9" "ev_double 120 = 12" "ev_double 180 = 14"
    by (simp_all add: ev_double_def bp30 bp60 bp120 bp180)
  then show ?thesis
    using ev_double_segments_mono [of L1 L2] bp30 bp60 bp120 bp180 by simp
qed

theorem ev_double_continuous_nondecreasing_witness:
  "ev_double (2659094104985567 / 281474976710656) \<le> ev_double (5318188209971135 / 562949953421312) \<and>
   ev_double 30 \<le> ev_double 59 \<and> ev_double 60 \<le> ev_double 61 \<and>
   ev_double 120 \<le> ev_double 179 \<and> ev_double 180 \<le> ev_double 255"
  using ev_double_continuous_nondecreasing
      [of "2659094104985567 / 281474976710656" "5318188209971135 / 562949953421312"]
    ev_double_continuous_nondecreasing [of 30 59] ev_double_continuous_nondecreasing [of 60 61]
    ev_double_continuous_nondecreasing [of 120 179] ev_double_continuous_nondecreasing [of 180 255]
  by simp

subsection \<open>Average luminance\<close>

lemma total_luminance_loop_sum:
  "total_luminance_loop acc pixels = acc + sum_list (map luminance pixels)"
  by (induction pixels arbitrary: acc) simp_all

text \<open>
  C4. For every non-empty pixel list, the average luminance is the sum over all pixels
  of 0.299*R + 0.587*G + 0.114*B, divided by the number of pixels.
\<close>

theorem avg_luminance_mean:
  "pixels \<noteq> [] \<Longrightarrow>
   avg_luminance pixels =
     Inr ((\<Sum>(r, g, b) \<leftarrow> pixels.
             0.299 * real (unat r) + 0.587 * real (unat g) + 0.114 * real (unat b))
          / real (length pixels))"
proof -
  assume "pixels \<noteq> []"
  moreover have "luminance =
      (\<lambda>(r, g, b). 0.299 * real (unat r) + 0.587 * real (unat g) + 0.114 * real (unat b))"
    by (rule ext) (simp add: luminance_def)
  ultimately show ?thesis
    by (simp add: avg_luminance_def total_luminance_def total_luminance_loop_sum)
qed

theorem avg_luminance_mean_witness:
  "avg_luminance [(10, 20, 30), (200, 100, 0)] = Inr (2733 / 40)"
  using avg_luminance_mean [of "[(10, 20, 30), (200, 100, 0)]"]
  by simp

subsection \<open>Uniform images\<close>

lemma luminance_grey: "luminance (c, c, c) = real (unat c)"
  by (simp add: luminance_def algebra_simps)

lemma avg_luminance_replicate:
  "0 < n \<Longrightarrow> avg_luminance (replicate n p) = Inr (luminance p)"
  by (simp add: avg_luminance_def total_luminance_def total_luminance_loop_sum
      map_replicate_const sum_list_replicate)

lemma measure_pixels_grey:
  "0 < n \<Longrightarrow> measure_pixels (replicate n (c, c, c)) s =
     Inr (BrightnessResult (py_round (real (unat c)) 2) (py_round (ev (real (unat c))) 2) n,
          s\<lparr>logger := logger s @
            [LogInfo (py_round (real (unat c)) 2) (py_round (ev (real (unat c))) 2)]\<rparr>)"
  by (simp add: measure_pixels_def and_then_def avg_luminance_replicate luminance_grey Let_def)


lemma round_0: "py_round 0 2 = 0" "py_round (ev 0) 2 = 2"
  by (simp_all add: py_round_def round_half_even_def Let_def ev_def ev_very_dark_def)




subsection \<open>Failures\<close>

lemma read_pixels_empty_image:
  "read_pixels (solid_PIL 0 0 c) [1] = Inr []"
  by (simp add: read_pixels_def solid_PIL_def and_then_def thumbnail_def preserve_aspect_ratio_def)

text \<open>
  C2 as stated fails: on an image without pixels nothing checks for emptiness before
  line 85; the division itself raises \<open>ZeroDivisionError\<close>, and the handler of line 117
  turns it into the error response with the text "division by zero".
\<close>

theorem empty_image_counterexample:
  "avg_luminance [] = Inl (PyException ''ZeroDivisionError'' ''division by zero'') \<and>
   read_pixels (solid_PIL 0 0 (0, 0, 0)) [1] = Inr [] \<and>
   analyze_brightness (solid_PIL 0 0 (0, 0, 0)) [1] \<lparr>status_checks = [], logger = []\<rparr> =
     Inr (ErrorResponse ''division by zero'' 500,
          \<lparr>status_checks = [], logger = [LogError ''Error analyzing brightness: division by zero'']\<rparr>)"
  by (simp add: analyze_brightness_def try_except_def try_block_def measure_pixels_def
      read_pixels_empty_image and_then_def avg_luminance_def ZeroDivisionError_def)

text \<open>
  C2, amended. If the decoded pixel list is empty, the division by the pixel count
  raises \<open>ZeroDivisionError\<close>, which the handler returns as the error payload
  "division by zero" with status 500, logging it at error level.
\<close>

theorem empty_image_error:
  "read_pixels pil contents = Inr [] \<Longrightarrow>
   try_block pil contents s = Inl ZeroDivisionError \<and>
   analyze_brightness pil contents s =
     Inr (ErrorResponse ''division by zero'' 500,
          s\<lparr>logger := logger s @ [LogError ''Error analyzing brightness: division by zero'']\<rparr>)"
  by (simp add: analyze_brightness_def try_except_def try_block_def measure_pixels_def
      and_then_def avg_luminance_def ZeroDivisionError_def)

theorem empty_image_error_witness:
  "read_pixels (solid_PIL 0 0 (9, 9, 9)) [1] = Inr [] \<and>
   analyze_brightness (solid_PIL 0 0 (9, 9, 9)) [1] \<lparr>status_checks = [], logger = []\<rparr> =
     Inr (ErrorResponse ''division by zero'' 500,
          \<lparr>status_checks = [], logger = [LogError ''Error analyzing brightness: division by zero'']\<rparr>)"
  using empty_image_error [OF read_pixels_empty_image, of "(9, 9, 9)" "\<lparr>status_checks = [], logger = []\<rparr>"]
    read_pixels_empty_image [of "(9, 9, 9)"]
  by simp

text \<open>
  C3. Every failure raised in the body of the handler, by decoding, by any later step
  of the imaging library or by the division on an empty image, is caught: the handler
  always returns, never lets an exception leave, and on a failure returns the error
  payload with the failure's text and status 500, with no result fields; a body that
  succeeds is returned as it is.
\<close>

theorem failures_caught:
  "(\<exists>r s'. analyze_brightness pil contents s = Inr (r, s')) \<and>
   (try_block pil contents s = Inl e \<longrightarrow>
      analyze_brightness pil contents s =
        Inr (ErrorResponse (exc_str e) 500,
             s\<lparr>logger := logger s @ [LogError (''Error analyzing brightness: '' @ exc_str e)]\<rparr>)) \<and>
   (Image_open pil contents = Inl e \<longrightarrow> try_block pil contents s = Inl e) \<and>
   (read_pixels pil contents = Inl e \<longrightarrow> try_block pil contents s = Inl e) \<and>
   (read_pixels pil contents = Inr [] \<longrightarrow> try_block pil contents s = Inl ZeroDivisionError) \<and>
   (try_block pil contents s = Inr (r, s') \<longrightarrow> analyze_brightness pil contents s = Inr (r, s'))"
  by (auto simp: analyze_brightness_def try_except_def try_block_def read_pixels_def measure_pixels_def
      and_then_def avg_luminance_def split: sum.splits)

theorem failures_caught_witness:
  "analyze_brightness (solid_PIL 2 2 (9, 9, 9)) [] \<lparr>status_checks = [], logger = []\<rparr> =
     Inr (ErrorResponse ''cannot identify image file'' 500,
          \<lparr>status_checks = [], logger = [LogError ''Error analyzing brightness: cannot identify image file'']\<rparr>)"
  using failures_caught [of "solid_PIL 2 2 (9, 9, 9)" "[]" "\<lparr>status_checks = [], logger = []\<rparr>"
      "PyException ''UnidentifiedImageError'' ''cannot identify image file''"]
  by (simp add: solid_PIL_def)

subsection \<open>Determinism\<close>





subsection \<open>Downsampling\<close>

lemma round_aspect_le:
  "number \<le> real b \<Longrightarrow> 0 < b \<Longrightarrow> round_aspect number key \<le> b"
proof -
  assume h: "number \<le> real b" "0 < b"
  have c: "\<lceil>number\<rceil> \<le> int b"
    using h by (simp add: ceiling_le_iff)
  have f: "\<lfloor>number\<rfloor> \<le> int b"
    using c floor_le_ceiling [of number] by linarith
  have "max (if key \<lfloor>number\<rfloor> \<le> key \<lceil>number\<rceil> then \<lfloor>number\<rfloor> else \<lceil>number\<rceil>) 1 \<le> int b"
    using c f h by simp
  then show ?thesis
    unfolding round_aspect_def by (simp only: nat_le_iff)
qed

lemma divide_le_of_less_mult:
  fixes a x y :: real
  shows "0 < a \<Longrightarrow> x < a * y \<Longrightarrow> x / a \<le> y"
  by (simp add: pos_divide_le_eq mult.commute)

lemma preserve_aspect_ratio_le:
  assumes "preserve_aspect_ratio (x, y) (w, h) = Inr (Some (x', y'))" "0 < x" "0 < y"
  shows "x' \<le> x \<and> y' \<le> y"
proof -
  have nofit: "\<not> (w \<le> x \<and> h \<le> y)" and h0: "h \<noteq> 0"
    using assms by (auto simp: preserve_aspect_ratio_def split: if_splits)
  let ?aspect = "real w / real h"
  show ?thesis
  proof (cases "?aspect \<le> real x / real y")
    case True
    then have eq: "x' = round_aspect (real y * ?aspect) (\<lambda>n. \<bar>?aspect - of_int n / real y\<bar>)" "y' = y"
      using assms nofit h0 by (auto simp: preserve_aspect_ratio_def Let_def split: if_splits)
    have "real y * ?aspect \<le> real x"
      using True assms(3) by (simp add: field_simps)
    then show ?thesis
      using eq round_aspect_le [OF _ assms(2)] by simp
  next
    case False
    then have eq: "x' = x"
        "y' = round_aspect (real x / ?aspect) (\<lambda>n. if n = 0 then 0 else \<bar>?aspect - real x / of_int n\<bar>)"
      using assms nofit h0 by (auto simp: preserve_aspect_ratio_def Let_def split: if_splits)
    have pos: "0 < ?aspect"
      using False assms(2,3) by (smt (verit) divide_nonneg_nonneg of_nat_0_le_iff)
    have "real x / real y < ?aspect" using False by simp
    then have "real x < ?aspect * real y"
      using assms(3) by (simp add: pos_divide_less_eq)
    then have "real x / ?aspect \<le> real y"
      by (rule divide_le_of_less_mult [OF pos])
    then show ?thesis
      using eq round_aspect_le [OF _ assms(3)] by simp
  qed
qed

lemma thumbnail_le:
  assumes "PIL_sizes pil" "thumbnail pil img (x, y) = Inr img'" "0 < x" "0 < y"
  shows "fst (im_size pil img') \<le> x \<and> snd (im_size pil img') \<le> y"
proof (cases "preserve_aspect_ratio (x, y) (im_size pil img)")
  case (Inl e)
  then show ?thesis using assms(2) by (simp add: thumbnail_def and_then_def)
next
  case (Inr final_size)
  show ?thesis
  proof (cases final_size)
    case None
    then have "img' = img"
      using Inr assms(2) by (simp add: thumbnail_def and_then_def)
    moreover have "fst (im_size pil img) \<le> x \<and> snd (im_size pil img) \<le> y"
      using Inr None
      by (cases "im_size pil img") (auto simp: preserve_aspect_ratio_def Let_def split: if_splits)
    ultimately show ?thesis by simp
  next
    case (Some sz)
    obtain w h where wh: "im_size pil img = (w, h)" by (cases "im_size pil img")
    obtain x' y' where sz: "sz = (x', y')" by (cases sz)
    have le: "x' \<le> x \<and> y' \<le> y"
      using preserve_aspect_ratio_le [of x y w h x' y'] Inr Some wh sz assms(3,4) by simp
    have "im_size pil img' = sz"
    proof (cases "im_size pil img = sz")
      case True
      then show ?thesis using Inr Some assms(2) by (simp add: thumbnail_def and_then_def)
    next
      case False
      then have "resize pil img sz = Inr img'"
        using Inr Some assms(2) by (simp add: thumbnail_def and_then_def)
      then show ?thesis using assms(1) unfolding PIL_sizes_def by blast
    qed
    then show ?thesis using le sz by simp
  qed
qed

lemma read_pixels_length:
  assumes "PIL_sizes pil" "read_pixels pil contents = Inr pixels"
  shows "length pixels \<le> 40000"
proof -
  obtain img img' where g: "thumbnail pil img (200, 200) = Inr img'" "getdata pil img' = Inr pixels"
    using assms(2) by (auto simp: read_pixels_def and_then_def split: sum.splits if_splits)
  have le: "fst (im_size pil img') \<le> 200 \<and> snd (im_size pil img') \<le> 200"
    using thumbnail_le [OF assms(1) g(1)] by simp
  have "length pixels = fst (im_size pil img') * snd (im_size pil img')"
    using assms(1) g(2) unfolding PIL_sizes_def by blast
  also have "\<dots> \<le> 200 * 200"
    using le by (intro mult_le_mono) simp_all
  finally show ?thesis by simp
qed

lemma analyze_brightness_result:
  assumes "analyze_brightness pil contents s = Inr (BrightnessResult a e n, s')"
  shows "\<exists>pixels. read_pixels pil contents = Inr pixels \<and> n = length pixels"
  using assms
  by (auto simp: analyze_brightness_def try_except_def try_block_def measure_pixels_def
      and_then_def Let_def split: sum.splits)

lemma PIL_sizes_solid: "PIL_sizes (solid_PIL w h c)"
  by (simp add: PIL_sizes_def solid_PIL_def)

text \<open>
  C8. Whatever the resolution of the decoded image, after the thumbnail step neither
  dimension exceeds 200, the pixel list has at most 40000 entries, and the pixel_count
  of every successful result is at most 40000.
\<close>

theorem downsampling_bound:
  "PIL_sizes pil \<Longrightarrow>
   (thumbnail pil img (200, 200) = Inr img' \<longrightarrow>
      fst (im_size pil img') \<le> 200 \<and> snd (im_size pil img') \<le> 200) \<and>
   (read_pixels pil contents = Inr pixels \<longrightarrow> length pixels \<le> 40000) \<and>
   (analyze_brightness pil contents s = Inr (BrightnessResult a e n, s') \<longrightarrow> n \<le> 40000)"
  using thumbnail_le [of pil img 200 200 img'] read_pixels_length [of pil contents]
    analyze_brightness_result [of pil contents s a e n s']
  by auto

lemma thumbnail_solid_1000_500:
  "thumbnail (solid_PIL 1000 500 c) (1000, 500) (200, 200) = Inr (200, 100)"
  by (simp add: thumbnail_def preserve_aspect_ratio_def and_then_def solid_PIL_def round_aspect_def Let_def)

lemma read_pixels_solid_1000_500:
  "read_pixels (solid_PIL 1000 500 c) [1] = Inr (replicate 20000 c)"
proof -
  let ?P = "solid_PIL 1000 500 c"
  have "Image_open ?P [1] = Inr (1000, 500)" "im_mode ?P (1000, 500) = ''RGB''"
      "getdata ?P (200, 100) = Inr (replicate 20000 c)"
    by (simp_all add: solid_PIL_def)
  then show ?thesis
    unfolding read_pixels_def by (simp add: and_then_def thumbnail_solid_1000_500)
qed

theorem downsampling_bound_witness:
  "PIL_sizes (solid_PIL 1000 500 (0, 0, 0)) \<and>
   thumbnail (solid_PIL 1000 500 (0, 0, 0)) (1000, 500) (200, 200) = Inr (200, 100) \<and>
   im_size (solid_PIL 1000 500 (0, 0, 0)) (200, 100) = (200, 100) \<and>
   analyze_brightness (solid_PIL 1000 500 (0, 0, 0)) [1] \<lparr>status_checks = [], logger = []\<rparr> =
     Inr (BrightnessResult 0 2 20000, \<lparr>status_checks = [], logger = [LogInfo 0 2]\<rparr>) \<and>
   (20000::nat) \<le> 40000"
proof -
  let ?P = "solid_PIL 1000 500 (0, 0, 0)"
  let ?s = "\<lparr>status_checks = [], logger = []\<rparr>"
  have p: "PIL_sizes ?P" by (rule PIL_sizes_solid)
  have t: "thumbnail ?P (1000, 500) (200, 200) = Inr (200, 100)"
    by (rule thumbnail_solid_1000_500)
  have a: "analyze_brightness ?P [1] ?s =
      Inr (BrightnessResult 0 2 20000, \<lparr>status_checks = [], logger = [LogInfo 0 2]\<rparr>)"
    using measure_pixels_grey [of 20000 0 ?s] round_0
    by (simp add: analyze_brightness_def try_except_def try_block_def and_then_def
        read_pixels_solid_1000_500)
  have "im_size ?P (200, 100) = (200, 100)" by (simp add: solid_PIL_def)
  then show ?thesis
    using downsampling_bound [OF p, of "(1000, 500)" "(200, 100)" "[1]" "replicate 20000 (0, 0, 0)" ?s 0 2 20000
        "\<lparr>status_checks = [], logger = [LogInfo 0 2]\<rparr>"] p t a
    by simp
qed

subsection \<open>Listing status checks\<close>

text \<open>
  C10. Listing the status checks returns at most 1000 records, whatever the collection
  holds: the first 1000 in the collection's order, the rest left out without an error.
\<close>

theorem get_status_checks_limit:
  "length (get_status_checks s) = min 1000 (length (status_checks s)) \<and>
   length (get_status_checks s) \<le> 1000 \<and>
   get_status_checks s = take 1000 (status_checks s)"
proof -
  have "(\<lambda>x. \<lparr>id' = id' x, client_name = client_name x, timestamp = timestamp x\<rparr>) = (\<lambda>x. x)"
    by (rule ext) simp
  then show ?thesis
    by (simp add: get_status_checks_def to_list_def min.commute)
qed

end
